theory Spec2Isabelle
  imports Main "HOL-Library.Multiset"
begin

section \<open>Text primitives of the host language\<close>

text \<open>
  Python text is modelled as \<^typ>\<open>string\<close>; a character stands for one code point
  below 256 and \<^const>\<open>length\<close> is Python's \<^verbatim>\<open>len\<close>. \<^verbatim>\<open>str.strip()\<close> removes the
  characters for which \<^verbatim>\<open>str.isspace\<close> holds; in this range they are 0x09-0x0D,
  0x1C-0x20, 0x85 and 0xA0.
\<close>

definition is_space :: "char \<Rightarrow> bool" where
  "is_space c = (c \<in> set [CHR 0x09, CHR 0x0A, CHR 0x0B, CHR 0x0C, CHR 0x0D,
                            CHR 0x1C, CHR 0x1D, CHR 0x1E, CHR 0x1F, CHR 0x20,
                            CHR 0x85, CHR 0xA0])"

definition strip :: "string \<Rightarrow> string" where
  "strip s = rev (dropWhile is_space (rev (dropWhile is_space s)))"

text \<open>\<^verbatim>\<open>s.replace(a, b)\<close> for one-character \<^verbatim>\<open>a\<close> and \<^verbatim>\<open>b\<close>.\<close>

definition replace :: "char \<Rightarrow> char \<Rightarrow> string \<Rightarrow> string" where
  "replace a b s = map (\<lambda>c. if c = a then b else c) s"

text \<open>\<^verbatim>\<open>needle in haystack\<close> on text: the needle occurs as a contiguous run.\<close>

fun contains :: "string \<Rightarrow> string \<Rightarrow> bool" where
  "contains needle [] = (needle = [])"
| "contains needle (c # cs) = (take (length needle) (c # cs) = needle \<or> contains needle cs)"

text \<open>\<^verbatim>\<open>s.lstrip("@")\<close>: every leading \<^verbatim>\<open>@\<close> is removed.\<close>

definition lstrip_at :: "string \<Rightarrow> string" where
  "lstrip_at s = dropWhile (\<lambda>c. c = CHR ''@'') s"

text \<open>\<^verbatim>\<open>a or b\<close> on optional text: the first operand when it is neither \<^verbatim>\<open>None\<close> nor
  empty, the second otherwise.\<close>

fun or_str :: "string option \<Rightarrow> string \<Rightarrow> string" where
  "or_str None d = d"
| "or_str (Some s) d = (if s \<noteq> [] then s else d)"

text \<open>\<^verbatim>\<open>str(n)\<close> for integers, used by the rendering of a \<^verbatim>\<open>struct_time\<close>.\<close>

fun str_nat :: "nat \<Rightarrow> string" where
  "str_nat n = (if n < 10 then [char_of (48 + n)]
                else str_nat (n div 10) @ [char_of (48 + n mod 10)])"

declare str_nat.simps [simp del]

definition str_int :: "int \<Rightarrow> string" where
  "str_int i = (if i < 0 then CHR ''-'' # str_nat (nat (- i)) else str_nat (nat i))"

section \<open>Data model\<close>

text \<open>
  A source declaration of the configuration file is a mapping; the expander reads the
  keys \<^verbatim>\<open>name\<close>, \<^verbatim>\<open>url\<close> and \<^verbatim>\<open>handle\<close> of it, each of which may be absent. Equality
  of declarations (\<^verbatim>\<open>item in list\<close>) is equality of these mappings.
\<close>

record decl =
  decl_name :: "string option"
  decl_url :: "string option"
  decl_handle :: "string option"

text \<open>The parsed configuration: every top-level key may be absent. \<^verbatim>\<open>categories\<close> maps a
  key to the list of declarations under it.\<close>

record config =
  nitter_base :: "string option"
  nitter_mirrors :: "string list option"
  categories :: "(string \<times> decl list) list option"

text \<open>One element of \<^verbatim>\<open>feed_sources\<close>; the key \<^verbatim>\<open>handle\<close> exists for Twitter sources
  only.\<close>

record feed_source =
  src_source :: string
  src_category :: string
  src_url :: string
  src_handle :: "string option"

text \<open>A \<^verbatim>\<open>time.struct_time\<close> as the feed library supplies it.\<close>

record struct_time =
  tm_year :: int
  tm_mon :: int
  tm_mday :: int
  tm_hour :: int
  tm_min :: int
  tm_sec :: int
  tm_wday :: int
  tm_yday :: int
  tm_isdst :: int

text \<open>A parsed feed entry, seen through \<^verbatim>\<open>entry.get\<close>: textual keys (\<^verbatim>\<open>title\<close>,
  \<^verbatim>\<open>link\<close>, \<^verbatim>\<open>summary\<close>, \<^verbatim>\<open>description\<close>, \<^verbatim>\<open>published\<close>, \<^verbatim>\<open>updated\<close>, \<^verbatim>\<open>created\<close>) and
  the pre-parsed date keys (\<^verbatim>\<open>published_parsed\<close>, ...).\<close>

record raw_entry =
  text_fields :: "(string \<times> string) list"
  time_fields :: "(string \<times> struct_time) list"

record feed =
  bozo :: bool
  entries :: "raw_entry list"

text \<open>A \<^verbatim>\<open>datetime\<close> value is used through \<^verbatim>\<open>isoformat()\<close> only.\<close>

datatype datetime = DateTime (isoformat: string)

text \<open>The value tried by the date loop: a text or a \<^verbatim>\<open>struct_time\<close>.\<close>

datatype dateval = DText string | DStruct struct_time

text \<open>One row of the output table.\<close>

record news_row =
  row_source :: string
  row_category :: string
  row_title :: string
  row_link :: string
  row_summary :: string
  row_published :: string
  row_collected_at :: string

text \<open>The outcome of \<^verbatim>\<open>requests.get\<close>: an exception with its message, or a response with
  its status code and text.\<close>

datatype http_result = Raised string | Response int string

text \<open>The calls of \<^verbatim>\<open>log\<close>, one constructor per message of the program.\<close>

datatype log_event =
    ConfigNotFound string
  | Loaded nat
  | MirrorFailed string string
  | FetchFailed string string
  | SkipUnreachable string string
  | ParseWarning string
  | Collected nat
  | Wrote string nat

datatype error = KeyError string

section \<open>The environment of a run\<close>

text \<open>
  What the libraries and the outside world answer during one run. The \<open>n\<close>-th HTTP request
  of the run (counted from 0) to \<open>u\<close> answers \<open>requests_get n u\<close>; the \<open>n\<close>-th reading of
  the clock gives \<open>datetime_now n\<close>. The digest, the date parser, the feed parser and the
  table sort are the libraries' functions.
\<close>

record externals =
  requests_get :: "nat \<Rightarrow> string \<Rightarrow> http_result"
  feedparser_parse :: "string \<Rightarrow> feed"
  dtparse_parse :: "string \<Rightarrow> datetime option"
  datetime_now :: "nat \<Rightarrow> datetime"
  md5_hexdigest :: "string \<Rightarrow> string"
  sort_values :: "news_row list \<Rightarrow> news_row list"
  date_tag :: string

text \<open>The mutable state of the run: the module's \<^verbatim>\<open>rows\<close> and \<^verbatim>\<open>seen\<close>, and the trace of
  its effects (lines logged, URLs requested, clock readings taken).\<close>

record run_state =
  log_lines :: "log_event list"
  requests :: "string list"
  clock_reads :: nat
  rows :: "news_row list"
  seen :: "string set"

definition init_state :: run_state where
  "init_state = \<lparr>log_lines = [], requests = [], clock_reads = 0, rows = [], seen = {}\<rparr>"

definition log :: "log_event \<Rightarrow> run_state \<Rightarrow> run_state" where
  "log msg st = st\<lparr>log_lines := log_lines st @ [msg]\<rparr>"

definition now :: "externals \<Rightarrow> run_state \<Rightarrow> datetime \<times> run_state" where
  "now ext st = (datetime_now ext (clock_reads st), st\<lparr>clock_reads := Suc (clock_reads st)\<rparr>)"

section \<open>Configuration and source expansion\<close>

definition NITTER_BASE :: "config \<Rightarrow> string" where
  "NITTER_BASE cfg = (case nitter_base cfg of None \<Rightarrow> ''https://nitter.net'' | Some b \<Rightarrow> b)"

definition NITTER_MIRRORS :: "config \<Rightarrow> string list" where
  "NITTER_MIRRORS cfg = (case nitter_mirrors cfg of None \<Rightarrow> [NITTER_BASE cfg] | Some ms \<Rightarrow> ms)"

text \<open>\<^verbatim>\<open>categories.get(key, [])\<close> with \<^verbatim>\<open>categories = cfg.get("categories", {})\<close>.\<close>

definition categories_get :: "config \<Rightarrow> string \<Rightarrow> decl list" where
  "categories_get cfg key =
     (case categories cfg of
        None \<Rightarrow> []
      | Some cats \<Rightarrow> (case map_of cats key of None \<Rightarrow> [] | Some ds \<Rightarrow> ds))"

text \<open>The body of the first loop; a missing key raises \<^verbatim>\<open>KeyError\<close>, in the order in
  which the dictionary display reads them.\<close>

definition named_source :: "config \<Rightarrow> decl \<Rightarrow> error + feed_source" where
  "named_source cfg item =
     (case decl_name item of
        None \<Rightarrow> Inl (KeyError ''name'')
      | Some n \<Rightarrow>
          (case decl_url item of
             None \<Rightarrow> Inl (KeyError ''url'')
           | Some u \<Rightarrow>
               Inr \<lparr>src_source = n,
                    src_category = (if item \<in> set (categories_get cfg ''substack'')
                                    then ''substack'' else ''fintech_news''),
                    src_url = u,
                    src_handle = None\<rparr>))"

text \<open>The body of the second loop.\<close>

definition twitter_source :: "config \<Rightarrow> decl \<Rightarrow> error + feed_source" where
  "twitter_source cfg acct =
     (case decl_handle acct of
        None \<Rightarrow> Inl (KeyError ''handle'')
      | Some h \<Rightarrow>
          (let handle = lstrip_at h in
           Inr \<lparr>src_source = ''Twitter:'' @ handle,
                src_category = ''twitter'',
                src_url = NITTER_BASE cfg @ ''/'' @ handle @ ''/rss'',
                src_handle = Some handle\<rparr>))"

text \<open>A loop that appends one result per element and stops at the first exception.\<close>

fun collect :: "('a \<Rightarrow> error + 'b) \<Rightarrow> 'a list \<Rightarrow> error + 'b list" where
  "collect f [] = Inr []"
| "collect f (x # xs) =
     (case f x of
        Inl e \<Rightarrow> Inl e
      | Inr y \<Rightarrow> (case collect f xs of Inl e \<Rightarrow> Inl e | Inr ys \<Rightarrow> Inr (y # ys)))"

definition feed_sources :: "config \<Rightarrow> error + feed_source list" where
  "feed_sources cfg =
     (case collect (named_source cfg)
             (categories_get cfg ''substack'' @ categories_get cfg ''fintech_news'') of
        Inl e \<Rightarrow> Inl e
      | Inr named \<Rightarrow>
          (case collect (twitter_source cfg) (categories_get cfg ''twitter_accounts'') of
             Inl e \<Rightarrow> Inl e
           | Inr tw \<Rightarrow> Inr (named @ tw)))"

section \<open>Fingerprint\<close>

text \<open>The digest object accumulates the text of the \<^verbatim>\<open>update\<close> calls; \<^verbatim>\<open>hexdigest\<close> is the
  library's digest of what was accumulated. A part that is \<^verbatim>\<open>None\<close> or empty adds
  nothing.\<close>

definition hash_key :: "externals \<Rightarrow> string option list \<Rightarrow> string" where
  "hash_key ext parts = md5_hexdigest ext (foldl (\<lambda>m p. m @ or_str p []) [] parts)"

section \<open>Entry normalisation\<close>

definition entry_get :: "raw_entry \<Rightarrow> string \<Rightarrow> string option" where
  "entry_get entry key = map_of (text_fields entry) key"

definition entry_get_parsed :: "raw_entry \<Rightarrow> string \<Rightarrow> struct_time option" where
  "entry_get_parsed entry key = map_of (time_fields entry) key"

text \<open>\<^verbatim>\<open>entry.get(key) or entry.get(f"{key}_parsed")\<close>; \<open>None\<close> stands for a value that the
  test \<^verbatim>\<open>if val\<close> rejects (a \<^verbatim>\<open>struct_time\<close> is never rejected).\<close>

definition date_val :: "raw_entry \<Rightarrow> string \<Rightarrow> dateval option" where
  "date_val entry key =
     (case entry_get entry key of
        None \<Rightarrow> map_option DStruct (entry_get_parsed entry (key @ ''_parsed''))
      | Some s \<Rightarrow>
          (if s \<noteq> [] then Some (DText s)
           else map_option DStruct (entry_get_parsed entry (key @ ''_parsed''))))"

definition str_struct_time :: "struct_time \<Rightarrow> string" where
  "str_struct_time t =
     ''time.struct_time(tm_year='' @ str_int (tm_year t) @
     '', tm_mon='' @ str_int (tm_mon t) @
     '', tm_mday='' @ str_int (tm_mday t) @
     '', tm_hour='' @ str_int (tm_hour t) @
     '', tm_min='' @ str_int (tm_min t) @
     '', tm_sec='' @ str_int (tm_sec t) @
     '', tm_wday='' @ str_int (tm_wday t) @
     '', tm_yday='' @ str_int (tm_yday t) @
     '', tm_isdst='' @ str_int (tm_isdst t) @ '')''"

fun str_val :: "dateval \<Rightarrow> string" where
  "str_val (DText s) = s"
| "str_val (DStruct t) = str_struct_time t"

text \<open>The loop over the date keys: the first value that is accepted by \<^verbatim>\<open>if val\<close> and that
  the date parser reads ends the loop; a parser exception moves on to the next key.\<close>

fun published_loop :: "externals \<Rightarrow> raw_entry \<Rightarrow> string list \<Rightarrow> datetime option" where
  "published_loop ext entry [] = None"
| "published_loop ext entry (key # keys) =
     (case date_val entry key of
        None \<Rightarrow> published_loop ext entry keys
      | Some val \<Rightarrow>
          (case dtparse_parse ext (str_val val) of
             Some d \<Rightarrow> Some d
           | None \<Rightarrow> published_loop ext entry keys))"

text \<open>The summary clean-up at the end of \<^verbatim>\<open>parse_entry\<close>.\<close>

definition cleanup :: "string \<Rightarrow> string" where
  "cleanup summary =
     (if summary \<noteq> [] then
        (let summary = strip (replace (CHR 0x0D) (CHR '' '') (replace (CHR 0x0A) (CHR '' '') summary))
         in if length summary > 2000 then take 2000 summary @ ''...'' else summary)
      else summary)"

definition parse_entry ::
  "externals \<Rightarrow> run_state \<Rightarrow> raw_entry \<Rightarrow> (string \<times> string \<times> string \<times> datetime) \<times> run_state" where
  "parse_entry ext st entry =
     (let title = strip (case entry_get entry ''title'' of None \<Rightarrow> [] | Some t \<Rightarrow> t);
          link = strip (case entry_get entry ''link'' of None \<Rightarrow> [] | Some l \<Rightarrow> l);
          summary = strip (or_str (entry_get entry ''summary'')
                             (or_str (entry_get entry ''description'') []));
          (published, st') =
             (case published_loop ext entry [''published'', ''updated'', ''created''] of
                None \<Rightarrow> now ext st
              | Some d \<Rightarrow> (d, st))
      in ((title, link, cleanup summary, published), st'))"

section \<open>Fetching\<close>

definition try_fetch :: "externals \<Rightarrow> run_state \<Rightarrow> string \<Rightarrow> http_result \<times> run_state" where
  "try_fetch ext st url =
     (requests_get ext (length (requests st)) url, st\<lparr>requests := requests st @ [url]\<rparr>)"

text \<open>The loop over the mirrors inside \<^verbatim>\<open>fetch_feed\<close>.\<close>

fun try_mirrors ::
  "externals \<Rightarrow> string \<Rightarrow> run_state \<Rightarrow> string list \<Rightarrow> string option \<times> run_state" where
  "try_mirrors ext handle st [] = (None, st)"
| "try_mirrors ext handle st (base # bases) =
     (let test_url = base @ ''/'' @ handle @ ''/rss'';
          (r, st1) = try_fetch ext st test_url
      in case r of
           Raised e \<Rightarrow> try_mirrors ext handle (log (MirrorFailed base e) st1) bases
         | Response status_code text \<Rightarrow>
             (if status_code = 200 \<and> strip text \<noteq> [] then (Some text, st1)
              else try_mirrors ext handle st1 bases))"

definition fetch_feed ::
  "externals \<Rightarrow> config \<Rightarrow> run_state \<Rightarrow> string \<Rightarrow> string option \<Rightarrow> string option \<times> run_state" where
  "fetch_feed ext cfg st url handle =
     (if or_str handle [] \<noteq> [] \<and> contains ''nitter'' url then
        try_mirrors ext (or_str handle []) st (NITTER_MIRRORS cfg)
      else
        (let (r, st1) = try_fetch ext st url
         in case r of
              Raised e \<Rightarrow> (None, log (FetchFailed url e) st1)
            | Response status_code text \<Rightarrow>
                (if status_code = 200 \<and> strip text \<noteq> [] then (Some text, st1)
                 else (None, st1))))"

section \<open>The main loop\<close>

text \<open>The body of the loop over the entries of one feed.\<close>

definition process_entry :: "externals \<Rightarrow> feed_source \<Rightarrow> run_state \<Rightarrow> raw_entry \<Rightarrow> run_state" where
  "process_entry ext src st entry =
     (let ((title, link, summary, published), st1) = parse_entry ext st entry
      in if \<not> (title \<noteq> [] \<or> link \<noteq> []) then st1
         else
           (let key = hash_key ext [Some (src_source src), Some title, Some link]
            in if key \<in> seen st1 then st1
               else
                 (let st2 = st1\<lparr>seen := insert key (seen st1)\<rparr>;
                      (collected, st3) = now ext st2
                  in st3\<lparr>rows := rows st3 @
                         [\<lparr>row_source = src_source src,
                           row_category = src_category src,
                           row_title = title,
                           row_link = link,
                           row_summary = summary,
                           row_published = isoformat published,
                           row_collected_at = isoformat collected\<rparr>]\<rparr>)))"

text \<open>The body of the loop over the sources.\<close>

definition process_source :: "externals \<Rightarrow> config \<Rightarrow> run_state \<Rightarrow> feed_source \<Rightarrow> run_state" where
  "process_source ext cfg st src =
     (let (xml, st1) = fetch_feed ext cfg st (src_url src) (src_handle src)
      in if or_str xml [] = [] then log (SkipUnreachable (src_source src) (src_url src)) st1
         else
           (let feed = feedparser_parse ext (or_str xml []);
                st2 = (if bozo feed then log (ParseWarning (src_source src)) st1 else st1)
            in foldl (process_entry ext src) st2 (take 50 (entries feed))))"

section \<open>The program\<close>

text \<open>What the run finds outside: the value of \<^verbatim>\<open>FEEDS_PATH\<close>, if set, and for each path
  whether a file exists there and the configuration it holds.\<close>

record world =
  FEEDS_PATH :: "string option"
  config_files :: "string \<Rightarrow> config option"

text \<open>What the run leaves behind: the exit status of the process, the files it wrote (path
  and rows, in the order written) and the state at its end.\<close>

record outcome =
  exit_status :: nat
  written :: "(string \<times> news_row list) list"
  final :: run_state

definition CFG_PATH :: "world \<Rightarrow> string" where
  "CFG_PATH w = (case FEEDS_PATH w of None \<Rightarrow> ''config/feeds.yaml'' | Some p \<Rightarrow> p)"

text \<open>The module from top to bottom. \<^verbatim>\<open>sys.exit(1)\<close> and an exception that nothing catches
  both end the process with status 1.\<close>

definition main :: "externals \<Rightarrow> world \<Rightarrow> outcome" where
  "main ext w =
     (case config_files w (CFG_PATH w) of
        None \<Rightarrow>
          \<lparr>exit_status = 1, written = [],
           final = log (ConfigNotFound (CFG_PATH w)) init_state\<rparr>
      | Some cfg \<Rightarrow>
          (case feed_sources cfg of
             Inl e \<Rightarrow> \<lparr>exit_status = 1, written = [], final = init_state\<rparr>
           | Inr srcs \<Rightarrow>
               (let st0 = log (Loaded (length srcs)) init_state;
                    st1 = foldl (process_source ext cfg) st0 srcs;
                    st2 = log (Collected (length (rows st1))) st1;
                    out_path = ''data/news_raw_'' @ date_tag ext @ ''.csv'';
                    df = sort_values ext (rows st2);
                    st3 = log (Wrote out_path (length df)) st2
                in \<lparr>exit_status = 0, written = [(out_path, df)], final = st3\<rparr>)))"

section \<open>Terms of the specification\<close>

text \<open>The trimmed title and link of an entry, as \<^const>\<open>parse_entry\<close> returns them.\<close>

definition entry_title :: "raw_entry \<Rightarrow> string" where
  "entry_title entry = strip (case entry_get entry ''title'' of None \<Rightarrow> [] | Some t \<Rightarrow> t)"

definition entry_link :: "raw_entry \<Rightarrow> string" where
  "entry_link entry = strip (case entry_get entry ''link'' of None \<Rightarrow> [] | Some l \<Rightarrow> l)"

text \<open>The summary text that is chosen for an entry (\<^verbatim>\<open>summary\<close>, else \<^verbatim>\<open>description\<close>,
  else empty), and the cleaned form of a text in the words of the specification: line feeds
  and carriage returns turned into spaces, then trimmed.\<close>

definition raw_summary :: "raw_entry \<Rightarrow> string" where
  "raw_summary entry =
     or_str (entry_get entry ''summary'') (or_str (entry_get entry ''description'') [])"

definition cleaned :: "string \<Rightarrow> string" where
  "cleaned s = strip (replace (CHR 0x0D) (CHR '' '') (replace (CHR 0x0A) (CHR '' '') s))"

text \<open>The fingerprint the main loop computes for an entry of a source, and the fingerprint
  of a row that was kept.\<close>

definition entry_key :: "externals \<Rightarrow> feed_source \<Rightarrow> raw_entry \<Rightarrow> string" where
  "entry_key ext src entry =
     hash_key ext [Some (src_source src), Some (entry_title entry), Some (entry_link entry)]"

definition fingerprint :: "externals \<Rightarrow> news_row \<Rightarrow> string" where
  "fingerprint ext r = hash_key ext [Some (row_source r), Some (row_title r), Some (row_link r)]"

text \<open>The invariant of the main loop: the rows kept so far have pairwise different
  fingerprints, \<^verbatim>\<open>seen\<close> holds exactly these fingerprints, and no row has both an empty
  title and an empty link.\<close>

definition kept_invariant :: "externals \<Rightarrow> run_state \<Rightarrow> bool" where
  "kept_invariant ext st =
     (distinct (map (fingerprint ext) (rows st))
      \<and> seen st = set (map (fingerprint ext) (rows st))
      \<and> (\<forall>r \<in> set (rows st). row_title r \<noteq> [] \<or> row_link r \<noteq> []))"

text \<open>What the date loop obtains for one key: the value it reads for the key, if the test
  \<^verbatim>\<open>if val\<close> accepts it, passed through \<^verbatim>\<open>str\<close> and the date parser; \<open>None\<close> when there is
  no such value or the parser raises.\<close>

definition attempt :: "externals \<Rightarrow> raw_entry \<Rightarrow> string \<Rightarrow> datetime option" where
  "attempt ext entry key =
     (case date_val entry key of None \<Rightarrow> None | Some v \<Rightarrow> dtparse_parse ext (str_val v))"

text \<open>The test of \<^const>\<open>fetch_feed\<close> on the outcome of a request: a response with status
  200 whose text is not blank. \<open>body\<close> is the text of a response, and \<open>mirror_url\<close> the
  address requested from a mirror for a handle.\<close>

definition accepted :: "http_result \<Rightarrow> bool" where
  "accepted r =
     (case r of Raised e \<Rightarrow> False | Response status_code text \<Rightarrow> status_code = 200 \<and> strip text \<noteq> [])"

fun body :: "http_result \<Rightarrow> string" where
  "body (Raised e) = []"
| "body (Response status_code text) = text"

definition mirror_url :: "string \<Rightarrow> string \<Rightarrow> string" where
  "mirror_url handle base = base @ ''/'' @ handle @ ''/rss''"

section \<open>Sample data\<close>

text \<open>An entry with textual keys only.\<close>

definition entry_of :: "(string \<times> string) list \<Rightarrow> raw_entry" where
  "entry_of kvs = \<lparr>text_fields = kvs, time_fields = []\<rparr>"

text \<open>A small environment: one feed URL and one mirror answer, one mirror answers with a blank
  body, every other request times out; the feed has four entries; the date parser reads one date; the digest is the identity and the sort
  keeps the order.\<close>

definition sample_ext :: externals where
  "sample_ext =
     \<lparr>requests_get = (\<lambda>n u. if u = ''https://example.org/feed''
                                 \<or> u = ''https://nitter.example/alice/rss''
                              then Response 200 ''<rss/>''
                              else if u = ''https://nitter.blank/alice/rss''
                              then Response 200 '' ''
                              else Raised ''timeout''),
      feedparser_parse = (\<lambda>xml. \<lparr>bozo = False,
          entries = [entry_of [(''title'', ''T1''), (''summary'', ''first''),
                               (''published'', ''2024-05-01'')],
                     entry_of [(''summary'', ''no title, no link'')],
                     entry_of [(''title'', '' T1 ''), (''summary'', ''second'')],
                     entry_of [(''link'', ''https://example.org/2'')]]\<rparr>),
      dtparse_parse = (\<lambda>s. if s = ''2024-05-01'' then Some (DateTime ''2024-05-01T00:00:00'')
                              else None),
      datetime_now = (\<lambda>n. DateTime (''2024-06-01T00:00:0'' @ str_nat n)),
      md5_hexdigest = (\<lambda>s. s),
      sort_values = (\<lambda>rs. rs),
      date_tag = ''2024-06-01''\<rparr>"

definition source_named :: "string \<Rightarrow> feed_source" where
  "source_named n = \<lparr>src_source = n, src_category = ''fintech_news'',
                      src_url = ''https://example.org/feed'', src_handle = None\<rparr>"

text \<open>A configuration with one named feed and one Twitter account, found at the default
  path.\<close>

definition sample_config :: config where
  "sample_config =
     \<lparr>nitter_base = None,
      nitter_mirrors = Some [''https://nitter.example'', ''https://nitter.invalid''],
      categories = Some
        [(''fintech_news'', [\<lparr>decl_name = Some ''A'', decl_url = Some ''https://example.org/feed'',
                               decl_handle = None\<rparr>]),
         (''twitter_accounts'', [\<lparr>decl_name = None, decl_url = None,
                                   decl_handle = Some ''@bob''\<rparr>])]\<rparr>"

definition sample_world :: world where
  "sample_world = \<lparr>FEEDS_PATH = None,
     config_files = (\<lambda>p. if p = ''config/feeds.yaml'' then Some sample_config else None)\<rparr>"

text \<open>An entry with textual and pre-parsed keys.\<close>

definition entry_dated :: "(string \<times> string) list \<Rightarrow> (string \<times> struct_time) list \<Rightarrow> raw_entry" where
  "entry_dated kvs tvs = \<lparr>text_fields = kvs, time_fields = tvs\<rparr>"

text \<open>A configuration whose primary base is not a Nitter host, with two mirrors.\<close>

definition xcancel_config :: config where
  "xcancel_config =
     \<lparr>nitter_base = Some ''https://xcancel.com'',
      nitter_mirrors = Some [''https://nitter.blank'', ''https://nitter.example''],
      categories = Some
        [(''twitter_accounts'', [\<lparr>decl_name = None, decl_url = None,
                                   decl_handle = Some ''@alice''\<rparr>])]\<rparr>"

section \<open>Auxiliary facts\<close>

lemma foldl_append_concat:
  "foldl (\<lambda>m p. m @ f p) acc ps = acc @ concat (map f ps)"
  by (induction ps arbitrary: acc) simp_all

lemma hash_key_concat:
  "hash_key ext parts = md5_hexdigest ext (concat (map (\<lambda>p. or_str p []) parts))"
  by (simp add: hash_key_def foldl_append_concat)

lemma is_space_replace [simp]:
  "is_space a \<Longrightarrow> is_space b \<Longrightarrow> is_space (if c = a then b else c) = is_space c"
  by simp

lemma dropWhile_space_map:
  assumes "\<And>c. is_space (f c) = is_space c"
  shows "dropWhile is_space (map f s) = map f (dropWhile is_space s)"
  using assms by (simp add: dropWhile_map comp_def)

lemma strip_map:
  assumes "\<And>c. is_space (f c) = is_space c"
  shows "strip (map f s) = map f (strip s)"
proof -
  have "strip (map f s) = rev (dropWhile is_space (map f (rev (dropWhile is_space s))))"
    by (simp add: strip_def dropWhile_space_map[OF assms] rev_map)
  also have "\<dots> = map f (strip s)"
    by (simp add: strip_def dropWhile_space_map[OF assms] rev_map)
  finally show ?thesis .
qed

lemma dropWhile_fix:
  "xs = [] \<or> \<not> P (hd xs) \<Longrightarrow> dropWhile P xs = xs"
  by (cases xs) auto

lemma rev_dropWhile_rev_hd:
  assumes "xs = [] \<or> \<not> P (hd xs)"
  shows "rev (dropWhile P (rev xs)) = [] \<or> \<not> P (hd (rev (dropWhile P (rev xs))))"
  using assms
proof (induction xs rule: rev_induct)
  case Nil
  then show ?case by simp
next
  case (snoc x xs)
  then show ?case by (cases xs) (auto split: if_splits)
qed

lemma strip_idem: "strip (strip s) = strip s"
proof -
  let ?X = "dropWhile is_space s"
  let ?Y = "rev (dropWhile is_space (rev ?X))"
  have X: "?X = [] \<or> \<not> is_space (hd ?X)"
    using hd_dropWhile[of is_space s] by blast
  have "?Y = [] \<or> \<not> is_space (hd ?Y)"
    using X by (rule rev_dropWhile_rev_hd[where P = is_space and xs = "dropWhile is_space s"])
  then have "dropWhile is_space ?Y = ?Y" by (rule dropWhile_fix)
  then show ?thesis by (simp add: strip_def)
qed

lemma strip_replace_strip:
  "strip (replace (CHR 0x0D) (CHR '' '') (replace (CHR 0x0A) (CHR '' '') (strip s)))
   = strip (replace (CHR 0x0D) (CHR '' '') (replace (CHR 0x0A) (CHR '' '') s))"
proof -
  let ?f = "\<lambda>c. if (if c = CHR 0x0A then CHR '' '' else c) = CHR 0x0D then CHR '' '' else (if c = CHR 0x0A then CHR '' '' else c)"
  have f: "\<And>c. is_space (?f c) = is_space c" by (simp add: is_space_def)
  have r: "\<And>t. replace (CHR 0x0D) (CHR '' '') (replace (CHR 0x0A) (CHR '' '') t) = map ?f t"
    by (simp add: replace_def)
  show ?thesis
    by (simp only: r strip_map[of ?f, OF f] strip_idem)
qed

lemma now_keeps:
  "rows (snd (now ext st)) = rows st" "seen (snd (now ext st)) = seen st"
  "log_lines (snd (now ext st)) = log_lines st" "requests (snd (now ext st)) = requests st"
  by (simp_all add: now_def)

lemma parse_entry_keeps:
  "rows (snd (parse_entry ext st entry)) = rows st"
  "seen (snd (parse_entry ext st entry)) = seen st"
  "log_lines (snd (parse_entry ext st entry)) = log_lines st"
  "requests (snd (parse_entry ext st entry)) = requests st"
  by (simp_all add: parse_entry_def Let_def now_def split: option.splits prod.splits)

lemma parse_entry_title: "fst (fst (parse_entry ext st entry)) = entry_title entry"
  by (simp add: parse_entry_def Let_def entry_title_def split: option.splits prod.splits)

lemma parse_entry_link: "fst (snd (fst (parse_entry ext st entry))) = entry_link entry"
  by (simp add: parse_entry_def Let_def entry_link_def split: option.splits prod.splits)

lemma parse_entry_summary:
  "fst (snd (snd (fst (parse_entry ext st entry)))) = cleanup (strip (raw_summary entry))"
  by (simp add: parse_entry_def Let_def raw_summary_def split: option.splits prod.splits)

lemma cleanup_cleaned:
  "cleanup (strip s) = (if length (cleaned s) > 2000 then take 2000 (cleaned s) @ ''...'' else cleaned s)"
proof (cases "strip s = []")
  case True
  have "cleaned s = map (\<lambda>c. if (if c = CHR 0x0A then CHR '' '' else c) = CHR 0x0D then CHR '' '' else (if c = CHR 0x0A then CHR '' '' else c)) (strip s)"
    unfolding cleaned_def replace_def map_map comp_def
    by (rule strip_map) (simp add: is_space_def)
  with True have "cleaned s = []" by simp
  with True show ?thesis by (simp add: cleanup_def)
next
  case False
  then show ?thesis
    by (simp add: cleanup_def Let_def cleaned_def strip_replace_strip)
qed

lemma process_entry_discard:
  assumes "entry_title entry = []" "entry_link entry = []"
  shows "process_entry ext src st entry = snd (parse_entry ext st entry)"
proof -
  obtain title link summary published st1
    where p: "parse_entry ext st entry = ((title, link, summary, published), st1)"
    by (metis prod.exhaust)
  from p parse_entry_title[of ext st entry] parse_entry_link[of ext st entry] assms
  have "title = []" "link = []" by simp_all
  with p show ?thesis by (simp add: process_entry_def)
qed

lemma process_entry_duplicate:
  assumes "entry_title entry \<noteq> [] \<or> entry_link entry \<noteq> []"
    and "entry_key ext src entry \<in> seen st"
  shows "process_entry ext src st entry = snd (parse_entry ext st entry)"
proof -
  obtain title link summary published st1
    where p: "parse_entry ext st entry = ((title, link, summary, published), st1)"
    by (metis prod.exhaust)
  from p parse_entry_title[of ext st entry] parse_entry_link[of ext st entry]
  have tl: "title = entry_title entry" "link = entry_link entry" by simp_all
  from p parse_entry_keeps(2)[of ext st entry] have s: "seen st1 = seen st" by simp
  from assms tl s show ?thesis
    by (simp add: process_entry_def p entry_key_def)
qed

lemma process_entry_keep:
  assumes "entry_title entry \<noteq> [] \<or> entry_link entry \<noteq> []"
    and "entry_key ext src entry \<notin> seen st"
  shows "\<exists>r. rows (process_entry ext src st entry) = rows st @ [r]
           \<and> row_source r = src_source src \<and> row_category r = src_category src
           \<and> row_title r = entry_title entry \<and> row_link r = entry_link entry
           \<and> row_summary r = fst (snd (snd (fst (parse_entry ext st entry))))
           \<and> row_published r = isoformat (snd (snd (snd (fst (parse_entry ext st entry)))))"
    and "seen (process_entry ext src st entry) = insert (entry_key ext src entry) (seen st)"
    and "log_lines (process_entry ext src st entry) = log_lines st"
    and "requests (process_entry ext src st entry) = requests st"
proof -
  obtain title link summary published st1
    where p: "parse_entry ext st entry = ((title, link, summary, published), st1)"
    by (metis prod.exhaust)
  from p parse_entry_title[of ext st entry] parse_entry_link[of ext st entry]
  have tl: "title = entry_title entry" "link = entry_link entry" by simp_all
  from p parse_entry_keeps[of ext st entry]
  have s: "seen st1 = seen st" "rows st1 = rows st" "log_lines st1 = log_lines st"
    "requests st1 = requests st" by simp_all
  from assms tl s
  show "\<exists>r. rows (process_entry ext src st entry) = rows st @ [r]
           \<and> row_source r = src_source src \<and> row_category r = src_category src
           \<and> row_title r = entry_title entry \<and> row_link r = entry_link entry
           \<and> row_summary r = fst (snd (snd (fst (parse_entry ext st entry))))
           \<and> row_published r = isoformat (snd (snd (snd (fst (parse_entry ext st entry)))))"
    by (auto simp add: process_entry_def p entry_key_def now_def Let_def)
  from assms tl s
  show "seen (process_entry ext src st entry) = insert (entry_key ext src entry) (seen st)"
    by (auto simp add: process_entry_def p entry_key_def now_def Let_def)
  from assms tl s
  show "log_lines (process_entry ext src st entry) = log_lines st"
    by (auto simp add: process_entry_def p entry_key_def now_def Let_def)
  from assms tl s
  show "requests (process_entry ext src st entry) = requests st"
    by (auto simp add: process_entry_def p entry_key_def now_def Let_def)
qed

lemma kept_invariant_init: "kept_invariant ext init_state"
  by (simp add: kept_invariant_def init_state_def)

lemma kept_invariant_transfer:
  "kept_invariant ext st \<Longrightarrow> rows st' = rows st \<Longrightarrow> seen st' = seen st \<Longrightarrow> kept_invariant ext st'"
  by (simp add: kept_invariant_def)

lemma log_keeps:
  "rows (log msg st) = rows st" "seen (log msg st) = seen st"
  "requests (log msg st) = requests st" "clock_reads (log msg st) = clock_reads st"
  by (simp_all add: log_def)

lemma try_fetch_keeps:
  "rows (snd (try_fetch ext st url)) = rows st" "seen (snd (try_fetch ext st url)) = seen st"
  "log_lines (snd (try_fetch ext st url)) = log_lines st"
  by (simp_all add: try_fetch_def)

lemma try_mirrors_keeps:
  "rows (snd (try_mirrors ext handle st bases)) = rows st
   \<and> seen (snd (try_mirrors ext handle st bases)) = seen st"
proof (induction bases arbitrary: st)
  case Nil
  show ?case by simp
next
  case (Cons base bases)
  show ?case
    by (simp add: Let_def try_fetch_def log_def Cons.IH split: http_result.splits)
qed

lemma fetch_feed_keeps:
  "rows (snd (fetch_feed ext cfg st url handle)) = rows st"
  "seen (snd (fetch_feed ext cfg st url handle)) = seen st"
  by (simp_all add: fetch_feed_def try_mirrors_keeps try_fetch_def log_def Let_def
        split: http_result.splits)

lemma process_entry_invariant:
  assumes "kept_invariant ext st"
  shows "kept_invariant ext (process_entry ext src st entry)"
proof (cases "entry_title entry = [] \<and> entry_link entry = []")
  case True
  then have "process_entry ext src st entry = snd (parse_entry ext st entry)"
    by (simp add: process_entry_discard)
  with assms show ?thesis
    by (simp add: kept_invariant_transfer[OF assms] parse_entry_keeps)
next
  case False
  then have ne: "entry_title entry \<noteq> [] \<or> entry_link entry \<noteq> []" by blast
  show ?thesis
  proof (cases "entry_key ext src entry \<in> seen st")
    case True
    with ne have "process_entry ext src st entry = snd (parse_entry ext st entry)"
      by (rule process_entry_duplicate)
    with assms show ?thesis
      by (simp add: kept_invariant_transfer[OF assms] parse_entry_keeps)
  next
    case False
    from process_entry_keep(1)[OF ne False] obtain r where
      r: "rows (process_entry ext src st entry) = rows st @ [r]"
         "row_source r = src_source src" "row_title r = entry_title entry"
         "row_link r = entry_link entry"
      by blast
    have fp: "fingerprint ext r = entry_key ext src entry"
      by (simp add: fingerprint_def entry_key_def r)
    have sn: "seen (process_entry ext src st entry) = insert (entry_key ext src entry) (seen st)"
      by (rule process_entry_keep(2)[OF ne False])
    from assms False ne show ?thesis
      by (simp add: kept_invariant_def r(1) sn fp r(3,4))
  qed
qed

lemma foldl_invariant:
  assumes "\<And>s x. P s \<Longrightarrow> P (f s x)" and "P s0"
  shows "P (foldl f s0 xs)"
  using assms(2) by (induction xs arbitrary: s0) (simp_all add: assms(1))

lemma process_source_invariant:
  assumes "kept_invariant ext st"
  shows "kept_invariant ext (process_source ext cfg st src)"
proof -
  obtain xml st1 where f: "fetch_feed ext cfg st (src_url src) (src_handle src) = (xml, st1)"
    by (metis prod.exhaust)
  from f fetch_feed_keeps[of ext cfg st "src_url src" "src_handle src"]
  have k: "rows st1 = rows st" "seen st1 = seen st" by simp_all
  with assms have i1: "kept_invariant ext st1" by (rule kept_invariant_transfer)
  have i2: "\<And>msg. kept_invariant ext (log msg st1)"
    by (rule kept_invariant_transfer[OF i1]) (simp_all add: log_keeps)
  have i3: "\<And>s es. kept_invariant ext s \<Longrightarrow> kept_invariant ext (foldl (process_entry ext src) s es)"
    by (rule foldl_invariant) (simp_all add: process_entry_invariant)
  show ?thesis
    by (simp add: process_source_def f Let_def i1 i2 i3)
qed

lemma main_invariant: "kept_invariant ext (final (main ext w))"
proof -
  have i: "\<And>s srcs cfg. kept_invariant ext s \<Longrightarrow> kept_invariant ext (foldl (process_source ext cfg) s srcs)"
    by (rule foldl_invariant) (simp_all add: process_source_invariant)
  have l: "\<And>s msg. kept_invariant ext s \<Longrightarrow> kept_invariant ext (log msg s)"
    by (erule kept_invariant_transfer) (simp_all add: log_keeps)
  show ?thesis
    by (simp add: main_def Let_def i l kept_invariant_init split: option.splits sum.splits)
qed

lemma cleaned_replicate:
  assumes "\<not> is_space c" "c \<noteq> CHR 0x0A" "c \<noteq> CHR 0x0D"
  shows "cleaned (replicate n c) = replicate n c"
proof -
  have d: "dropWhile is_space (replicate n c) = replicate n c"
    using assms(1) by (cases n) simp_all
  from assms(2,3) have "replace (CHR 0x0D) (CHR '' '') (replace (CHR 0x0A) (CHR '' '') (replicate n c)) = replicate n c"
    by (simp add: replace_def)
  then show ?thesis using assms(1) by (simp add: cleaned_def strip_def d)
qed

lemma process_entry_seen_after:
  assumes "entry_title entry \<noteq> [] \<or> entry_link entry \<noteq> []"
  shows "entry_key ext src entry \<in> seen (process_entry ext src st entry)"
proof (cases "entry_key ext src entry \<in> seen st")
  case True
  with assms have "process_entry ext src st entry = snd (parse_entry ext st entry)"
    by (rule process_entry_duplicate)
  with True show ?thesis by (simp add: parse_entry_keeps)
next
  case False
  with assms show ?thesis by (simp add: process_entry_keep(2))
qed

lemma sample_title:
  "entry_title (entry_of [(''title'', t)]) = strip t"
  "entry_link (entry_of [(''title'', t)]) = []"
  "entry_title (entry_of [(''summary'', t)]) = []"
  "entry_link (entry_of [(''summary'', t)]) = []"
  by (simp_all add: entry_title_def entry_link_def entry_of_def entry_get_def strip_def)

lemma process_entry_fingerprint:
  assumes "entry_title entry \<noteq> [] \<or> entry_link entry \<noteq> []"
    and "entry_key ext src entry \<notin> seen st"
  shows "\<exists>r. rows (process_entry ext src st entry) = rows st @ [r]
           \<and> fingerprint ext r = entry_key ext src entry"
proof -
  from process_entry_keep(1)[OF assms] obtain r where
    r: "rows (process_entry ext src st entry) = rows st @ [r]"
       "row_source r = src_source src" "row_title r = entry_title entry"
       "row_link r = entry_link entry"
    by blast
  have "fingerprint ext r = entry_key ext src entry"
    by (simp add: fingerprint_def entry_key_def r)
  with r(1) show ?thesis by blast
qed

lemma process_entry_seen_rows:
  assumes "entry_title entry \<noteq> [] \<or> entry_link entry \<noteq> []"
    and "entry_key ext src entry \<in> seen st"
  shows "rows (process_entry ext src st entry) = rows st"
    and "seen (process_entry ext src st entry) = seen st"
    and "log_lines (process_entry ext src st entry) = log_lines st"
  using process_entry_duplicate[OF assms] by (simp_all add: parse_entry_keeps)

lemma entry_key_concat:
  "entry_key ext src entry =
     md5_hexdigest ext (src_source src @ entry_title entry @ entry_link entry)"
  by (simp add: entry_key_def hash_key_concat)

lemma distinct_map_mset:
  assumes "mset ys = mset xs" and "distinct (map f xs)"
  shows "distinct (map f ys)"
proof -
  from assms(1) have "mset (map f ys) = mset (map f xs)" by simp
  then show ?thesis using assms(2) by (metis mset_eq_imp_distinct_iff)
qed

lemma sample_sort: "sort_values sample_ext rs = rs"
  by (simp add: sample_ext_def)

lemma published_loop_step:
  "published_loop ext entry (key # keys) =
     (case attempt ext entry key of Some d \<Rightarrow> Some d | None \<Rightarrow> published_loop ext entry keys)"
  by (simp add: attempt_def split: option.splits)

lemma parse_entry_published:
  "snd (snd (snd (fst (parse_entry ext st entry)))) =
     (case published_loop ext entry [''published'', ''updated'', ''created''] of
        None \<Rightarrow> datetime_now ext (clock_reads st) | Some d \<Rightarrow> d)"
  by (simp add: parse_entry_def Let_def now_def split: option.splits prod.splits)

lemma parse_entry_clock:
  "clock_reads (snd (parse_entry ext st entry)) =
     (case published_loop ext entry [''published'', ''updated'', ''created''] of
        None \<Rightarrow> Suc (clock_reads st) | Some d \<Rightarrow> clock_reads st)"
  by (simp add: parse_entry_def Let_def now_def split: option.splits prod.splits)

lemma published_loop_three:
  "published_loop ext entry [''published'', ''updated'', ''created''] =
     (case attempt ext entry ''published'' of
        Some d \<Rightarrow> Some d
      | None \<Rightarrow>
          (case attempt ext entry ''updated'' of
             Some d \<Rightarrow> Some d
           | None \<Rightarrow> attempt ext entry ''created''))"
  by (simp only: published_loop_step published_loop.simps(1) split: option.splits) simp

lemma attempt_text:
  "entry_get entry key = Some s \<Longrightarrow> s \<noteq> [] \<Longrightarrow> attempt ext entry key = dtparse_parse ext s"
  by (simp add: attempt_def date_val_def)

lemma attempt_parsed:
  "entry_get entry key = None \<or> entry_get entry key = Some [] \<Longrightarrow>
   attempt ext entry key =
     (case entry_get_parsed entry (key @ ''_parsed'') of
        None \<Rightarrow> None
      | Some t \<Rightarrow> dtparse_parse ext (str_struct_time t))"
  by (cases "entry_get_parsed entry (key @ ''_parsed'')")
     (auto simp add: attempt_def date_val_def)

lemma sample_attempt:
  "attempt sample_ext (entry_of [(''published'', ''soon''), (''updated'', ''2024-05-01'')]) ''published'' = None"
  "attempt sample_ext (entry_of [(''published'', ''soon''), (''updated'', ''2024-05-01'')]) ''updated''
     = Some (DateTime ''2024-05-01T00:00:00'')"
  "attempt sample_ext (entry_of [(''title'', ''T'')]) ''published'' = None"
  "attempt sample_ext (entry_of [(''title'', ''T'')]) ''updated'' = None"
  "attempt sample_ext (entry_of [(''title'', ''T'')]) ''created'' = None"
  by (simp_all add: attempt_def date_val_def entry_get_def entry_get_parsed_def entry_of_def
        sample_ext_def)

lemma source_named_source: "src_source (source_named n) = n"
  by (simp add: source_named_def)

lemma try_mirrors_step:
  "try_mirrors ext handle st (base # bases) =
     (if accepted (requests_get ext (length (requests st)) (mirror_url handle base))
      then (Some (body (requests_get ext (length (requests st)) (mirror_url handle base))),
            st\<lparr>requests := requests st @ [mirror_url handle base]\<rparr>)
      else try_mirrors ext handle
             (case requests_get ext (length (requests st)) (mirror_url handle base) of
                Raised e \<Rightarrow> log (MirrorFailed base e) (st\<lparr>requests := requests st @ [mirror_url handle base]\<rparr>)
              | Response c t \<Rightarrow> st\<lparr>requests := requests st @ [mirror_url handle base]\<rparr>)
             bases)"
  by (simp add: Let_def try_fetch_def accepted_def mirror_url_def split: http_result.splits)

lemma try_mirrors_none:
  assumes "\<forall>j<length bases.
     \<not> accepted (requests_get ext (length (requests st) + j) (mirror_url handle (bases ! j)))"
  shows "fst (try_mirrors ext handle st bases) = None
       \<and> requests (snd (try_mirrors ext handle st bases)) = requests st @ map (mirror_url handle) bases"
  using assms
proof (induction bases arbitrary: st)
  case Nil
  show ?case by simp
next
  case (Cons base bases)
  let ?u = "mirror_url handle base"
  let ?r = "requests_get ext (length (requests st)) ?u"
  let ?st' = "(case ?r of
                Raised e \<Rightarrow> log (MirrorFailed base e) (st\<lparr>requests := requests st @ [?u]\<rparr>)
              | Response c t \<Rightarrow> st\<lparr>requests := requests st @ [?u]\<rparr>)"
  from Cons.prems[rule_format, of 0] have na: "\<not> accepted ?r" by simp
  have rq: "requests ?st' = requests st @ [?u]"
    by (simp add: log_def split: http_result.splits)
  have "\<forall>j<length bases.
     \<not> accepted (requests_get ext (length (requests ?st') + j) (mirror_url handle (bases ! j)))"
  proof (intro allI impI)
    fix j assume "j < length bases"
    with Cons.prems[rule_format, of "Suc j"] show
      "\<not> accepted (requests_get ext (length (requests ?st') + j) (mirror_url handle (bases ! j)))"
      by (simp add: rq)
  qed
  from Cons.IH[OF this] na show ?case
    by (simp only: try_mirrors_step if_False rq) simp
qed

lemma try_mirrors_first:
  assumes "i < length bases"
    and "\<forall>j<i. \<not> accepted (requests_get ext (length (requests st) + j) (mirror_url handle (bases ! j)))"
    and "accepted (requests_get ext (length (requests st) + i) (mirror_url handle (bases ! i)))"
  shows "fst (try_mirrors ext handle st bases)
           = Some (body (requests_get ext (length (requests st) + i) (mirror_url handle (bases ! i))))
       \<and> requests (snd (try_mirrors ext handle st bases))
           = requests st @ map (mirror_url handle) (take (Suc i) bases)"
  using assms
proof (induction bases arbitrary: st i)
  case Nil
  then show ?case by simp
next
  case (Cons base bases)
  let ?u = "mirror_url handle base"
  let ?r = "requests_get ext (length (requests st)) ?u"
  let ?st' = "(case ?r of
                Raised e \<Rightarrow> log (MirrorFailed base e) (st\<lparr>requests := requests st @ [?u]\<rparr>)
              | Response c t \<Rightarrow> st\<lparr>requests := requests st @ [?u]\<rparr>)"
  have rq: "requests ?st' = requests st @ [?u]"
    by (simp add: log_def split: http_result.splits)
  show ?case
  proof (cases i)
    case 0
    with Cons.prems(3) have "accepted ?r" by simp
    with 0 show ?thesis by (simp only: try_mirrors_step if_True) simp
  next
    case (Suc k)
    with Cons.prems(2)[rule_format, of 0] have na: "\<not> accepted ?r" by simp
    from Suc Cons.prems(1) have k: "k < length bases" by simp
    have p2: "\<forall>j<k. \<not> accepted (requests_get ext (length (requests ?st') + j) (mirror_url handle (bases ! j)))"
    proof (intro allI impI)
      fix j assume "j < k"
      with Cons.prems(2)[rule_format, of "Suc j"] Suc show
        "\<not> accepted (requests_get ext (length (requests ?st') + j) (mirror_url handle (bases ! j)))"
        by (simp add: rq)
    qed
    from Cons.prems(3) Suc
    have p3: "accepted (requests_get ext (length (requests ?st') + k) (mirror_url handle (bases ! k)))"
      by (simp add: rq)
    from Cons.IH[OF k p2 p3] na Suc show ?thesis
      by (simp only: try_mirrors_step if_False rq) simp
  qed
qed

lemma fetch_feed_single:
  assumes "\<not> (or_str handle [] \<noteq> [] \<and> contains ''nitter'' url)"
  shows "requests (snd (fetch_feed ext cfg st url handle)) = requests st @ [url]"
    and "fst (fetch_feed ext cfg st url handle)
           = (if accepted (requests_get ext (length (requests st)) url)
              then Some (body (requests_get ext (length (requests st)) url)) else None)"
  using assms
  by (auto simp add: fetch_feed_def try_fetch_def log_def accepted_def Let_def split: http_result.splits)

lemma xcancel_mirrors:
  "NITTER_MIRRORS xcancel_config = [''https://nitter.blank'', ''https://nitter.example'']"
  by (simp add: NITTER_MIRRORS_def xcancel_config_def)

lemma sample_responses:
  "requests_get sample_ext n ''https://nitter.blank/alice/rss'' = Response 200 '' ''"
  "requests_get sample_ext n ''https://nitter.example/alice/rss'' = Response 200 ''<rss/>''"
  by (simp_all add: sample_ext_def)

section \<open>The claims\<close>

text \<open>
  C5. The summary that \<^const>\<open>parse_entry\<close> returns is the cleaned summary when that has at
  most 2000 characters, and otherwise its first 2000 characters followed by the marker
  \<^verbatim>\<open>...\<close>; so for a cleaned length \<open>L\<close> its length is \<open>min L 2000\<close>, plus 3 exactly when
  \<open>L > 2000\<close>.
\<close>

theorem summary_truncation_law:
  "fst (snd (snd (fst (parse_entry ext st entry)))) =
     (if 2000 < length (cleaned (raw_summary entry))
      then take 2000 (cleaned (raw_summary entry)) @ ''...''
      else cleaned (raw_summary entry))
   \<and> length (fst (snd (snd (fst (parse_entry ext st entry))))) =
     min (length (cleaned (raw_summary entry))) 2000
       + (if 2000 < length (cleaned (raw_summary entry)) then 3 else 0)"
  by (simp add: parse_entry_summary cleanup_cleaned)

text \<open>The law at a summary of 2001 characters and at a short description.\<close>

theorem summary_truncation_law_witness:
  "fst (snd (snd (fst (parse_entry sample_ext init_state
       (entry_of [(''summary'', replicate 2001 (CHR ''x''))]))))) = replicate 2000 (CHR ''x'') @ ''...''
   \<and> length (fst (snd (snd (fst (parse_entry sample_ext init_state
       (entry_of [(''summary'', replicate 2001 (CHR ''x''))])))))) = 2003
   \<and> fst (snd (snd (fst (parse_entry sample_ext init_state
       (entry_of [(''description'', [CHR '' '', CHR ''a'', CHR 0x0A, CHR ''b'', CHR 0x0D])]))))) = ''a b''"
proof -
  have r: "raw_summary (entry_of [(''summary'', replicate 2001 (CHR ''x''))]) = replicate 2001 (CHR ''x'')"
    by (simp add: raw_summary_def entry_of_def entry_get_def)
  have c: "cleaned (replicate 2001 (CHR ''x'')) = replicate 2001 (CHR ''x'')"
    by (rule cleaned_replicate) (simp_all add: is_space_def)
  have r2: "cleaned (raw_summary (entry_of [(''description'', [CHR '' '', CHR ''a'', CHR 0x0A, CHR ''b'', CHR 0x0D])])) = ''a b''"
    by (simp add: raw_summary_def entry_of_def entry_get_def cleaned_def replace_def strip_def is_space_def)
  show ?thesis
    using summary_truncation_law[of sample_ext init_state "entry_of [(''summary'', replicate 2001 (CHR ''x''))]"]
      summary_truncation_law[of sample_ext init_state "entry_of [(''description'', [CHR '' '', CHR ''a'', CHR 0x0A, CHR ''b'', CHR 0x0D])]"]
    by (simp add: r c r2)
qed

text \<open>
  C7. An entry whose trimmed title and trimmed link are both empty adds no row and no
  fingerprint, whatever its other fields are. An entry with a non-empty trimmed title or
  link passes this test: its fingerprint is in \<^verbatim>\<open>seen\<close> afterwards, and a row with its title
  and link is appended unless the fingerprint was seen before. No row of a finished run has
  both an empty title and an empty link.
\<close>

theorem discard_rule:
  "(entry_title entry = [] \<and> entry_link entry = [] \<longrightarrow>
      rows (process_entry ext src st entry) = rows st
      \<and> seen (process_entry ext src st entry) = seen st)
   \<and> (entry_title entry \<noteq> [] \<or> entry_link entry \<noteq> [] \<longrightarrow>
      entry_key ext src entry \<in> seen (process_entry ext src st entry)
      \<and> (entry_key ext src entry \<notin> seen st \<longrightarrow>
           (\<exists>r. rows (process_entry ext src st entry) = rows st @ [r]
                \<and> row_title r = entry_title entry \<and> row_link r = entry_link entry)))
   \<and> (\<forall>r \<in> set (rows (final (main ext w))). row_title r \<noteq> [] \<or> row_link r \<noteq> [])"
proof (intro conjI impI)
  assume a: "entry_title entry = [] \<and> entry_link entry = []"
  then have "process_entry ext src st entry = snd (parse_entry ext st entry)"
    by (simp add: process_entry_discard)
  then show "rows (process_entry ext src st entry) = rows st"
    and "seen (process_entry ext src st entry) = seen st"
    by (simp_all add: parse_entry_keeps)
next
  assume a: "entry_title entry \<noteq> [] \<or> entry_link entry \<noteq> []"
  then show "entry_key ext src entry \<in> seen (process_entry ext src st entry)"
    by (rule process_entry_seen_after)
next
  assume a: "entry_title entry \<noteq> [] \<or> entry_link entry \<noteq> []"
    and b: "entry_key ext src entry \<notin> seen st"
  from process_entry_keep(1)[OF a b]
  show "\<exists>r. rows (process_entry ext src st entry) = rows st @ [r]
           \<and> row_title r = entry_title entry \<and> row_link r = entry_link entry"
    by blast
next
  from main_invariant[of ext w]
  show "\<forall>r \<in> set (rows (final (main ext w))). row_title r \<noteq> [] \<or> row_link r \<noteq> []"
    by (simp add: kept_invariant_def)
qed

text \<open>The rule at an entry with a summary only, and at an entry with a title.\<close>

theorem discard_rule_witness:
  "rows (process_entry sample_ext (source_named ''A'') init_state
           (entry_of [(''summary'', ''text only'')])) = []
   \<and> (\<exists>r. rows (process_entry sample_ext (source_named ''A'') init_state
                  (entry_of [(''title'', '' T '')])) = [r]
          \<and> row_title r = ''T'' \<and> row_link r = [])"
proof -
  have t: "strip '' T '' = ''T''" by (simp add: strip_def is_space_def)
  show ?thesis
    using discard_rule[of "entry_of [(''summary'', ''text only'')]" sample_ext "source_named ''A''" init_state]
      discard_rule[of "entry_of [(''title'', '' T '')]" sample_ext "source_named ''A''" init_state]
    by (simp add: sample_title t init_state_def)
qed

text \<open>
  C4. The rows kept by a run have pairwise different fingerprints, and so have the rows of
  the written file when the table sort only reorders its rows. For a candidate that passed
  the discard test: when its fingerprint is in \<^verbatim>\<open>seen\<close>, the rows, \<^verbatim>\<open>seen\<close> and the log stay
  as they are; otherwise the fingerprint is added and one row with that fingerprint is
  appended. An entry that agrees with an earlier one in source name, title and link is
  dropped, whatever its summary and dates are.
\<close>

theorem no_duplicate_fingerprints:
  "distinct (map (fingerprint ext) (rows (final (main ext w))))
   \<and> ((\<forall>rs. mset (sort_values ext rs) = mset rs) \<longrightarrow>
        (\<forall>f \<in> set (written (main ext w)). distinct (map (fingerprint ext) (snd f))))
   \<and> (entry_title entry \<noteq> [] \<or> entry_link entry \<noteq> [] \<longrightarrow>
        (entry_key ext src entry \<in> seen st \<longrightarrow>
           rows (process_entry ext src st entry) = rows st
           \<and> seen (process_entry ext src st entry) = seen st
           \<and> log_lines (process_entry ext src st entry) = log_lines st)
        \<and> (entry_key ext src entry \<notin> seen st \<longrightarrow>
           seen (process_entry ext src st entry) = insert (entry_key ext src entry) (seen st)
           \<and> log_lines (process_entry ext src st entry) = log_lines st
           \<and> (\<exists>r. rows (process_entry ext src st entry) = rows st @ [r]
                  \<and> fingerprint ext r = entry_key ext src entry)))
   \<and> ((entry_title entry \<noteq> [] \<or> entry_link entry \<noteq> [])
        \<and> src_source src' = src_source src
        \<and> entry_title entry' = entry_title entry
        \<and> entry_link entry' = entry_link entry \<longrightarrow>
        rows (process_entry ext src' (process_entry ext src st entry) entry')
          = rows (process_entry ext src st entry))"
proof (intro conjI impI)
  from main_invariant[of ext w]
  show d: "distinct (map (fingerprint ext) (rows (final (main ext w))))"
    by (simp add: kept_invariant_def)
  assume perm: "\<forall>rs. mset (sort_values ext rs) = mset rs"
  show "\<forall>f \<in> set (written (main ext w)). distinct (map (fingerprint ext) (snd f))"
  proof
    fix f assume f: "f \<in> set (written (main ext w))"
    then have "snd f = sort_values ext (rows (final (main ext w)))"
      by (auto simp add: main_def Let_def log_def split: option.splits sum.splits)
    with perm have "mset (snd f) = mset (rows (final (main ext w)))" by simp
    then show "distinct (map (fingerprint ext) (snd f))" using d by (rule distinct_map_mset)
  qed
next
  assume a: "entry_title entry \<noteq> [] \<or> entry_link entry \<noteq> []"
    and b: "entry_key ext src entry \<in> seen st"
  show "rows (process_entry ext src st entry) = rows st"
    and "seen (process_entry ext src st entry) = seen st"
    and "log_lines (process_entry ext src st entry) = log_lines st"
    by (rule process_entry_seen_rows[OF a b])+
next
  assume a: "entry_title entry \<noteq> [] \<or> entry_link entry \<noteq> []"
    and b: "entry_key ext src entry \<notin> seen st"
  show "seen (process_entry ext src st entry) = insert (entry_key ext src entry) (seen st)"
    by (rule process_entry_keep(2)[OF a b])
  show "log_lines (process_entry ext src st entry) = log_lines st"
    by (rule process_entry_keep(3)[OF a b])
  show "\<exists>r. rows (process_entry ext src st entry) = rows st @ [r]
           \<and> fingerprint ext r = entry_key ext src entry"
    by (rule process_entry_fingerprint[OF a b])
next
  assume h: "(entry_title entry \<noteq> [] \<or> entry_link entry \<noteq> [])
        \<and> src_source src' = src_source src
        \<and> entry_title entry' = entry_title entry
        \<and> entry_link entry' = entry_link entry"
  then have ne: "entry_title entry' \<noteq> [] \<or> entry_link entry' \<noteq> []" by simp
  from h have k: "entry_key ext src' entry' = entry_key ext src entry"
    by (simp add: entry_key_def)
  from h have "entry_key ext src entry \<in> seen (process_entry ext src st entry)"
    by (simp add: process_entry_seen_after)
  with k have "entry_key ext src' entry' \<in> seen (process_entry ext src st entry)" by simp
  with ne show "rows (process_entry ext src' (process_entry ext src st entry) entry')
          = rows (process_entry ext src st entry)"
    by (rule process_entry_seen_rows(1))
qed

text \<open>The invariant on the sample run, whose sort reorders nothing, and the step at a
  repeated title.\<close>

theorem no_duplicate_fingerprints_witness:
  "(\<forall>rs. mset (sort_values sample_ext rs) = mset rs)
   \<and> written (main sample_ext sample_world) \<noteq> []
   \<and> list_all (\<lambda>f. distinct (map (fingerprint sample_ext) (snd f)))
         (written (main sample_ext sample_world))
   \<and> rows (process_entry sample_ext (source_named ''A'')
             (process_entry sample_ext (source_named ''A'') init_state
                (entry_of [(''title'', ''T1'')]))
             (entry_of [(''title'', '' T1 '')]))
       = rows (process_entry sample_ext (source_named ''A'') init_state
                (entry_of [(''title'', ''T1'')]))"
proof -
  have t: "strip '' T1 '' = ''T1''" "strip ''T1'' = ''T1''"
    by (simp_all add: strip_def is_space_def)
  have w: "written (main sample_ext sample_world) \<noteq> []"
    by code_simp
  show ?thesis
    using no_duplicate_fingerprints[of sample_ext sample_world "entry_of [(''title'', ''T1'')]"
        "source_named ''A''" init_state "source_named ''A''" "entry_of [(''title'', '' T1 '')]"]
    by (simp add: sample_sort sample_title t w list_all_iff)
qed

text \<open>
  C6. The \<^verbatim>\<open>published\<close> value of \<^const>\<open>parse_entry\<close> is what the date parser reads for the
  first of the keys \<^verbatim>\<open>published\<close>, \<^verbatim>\<open>updated\<close>, \<^verbatim>\<open>created\<close> (in this order) for which it
  reads something; when it reads nothing for all three, the value is the clock reading
  taken at that moment. For one key the parser is given the text under the key when that
  is present and non-empty, and otherwise the pre-parsed value under the key with
  \<^verbatim>\<open>_parsed\<close> appended, if there is one.
\<close>

theorem published_resolution:
  "(attempt ext entry ''published'' = Some d \<longrightarrow>
      snd (snd (snd (fst (parse_entry ext st entry)))) = d)
   \<and> (attempt ext entry ''published'' = None \<and> attempt ext entry ''updated'' = Some d \<longrightarrow>
      snd (snd (snd (fst (parse_entry ext st entry)))) = d)
   \<and> (attempt ext entry ''published'' = None \<and> attempt ext entry ''updated'' = None
        \<and> attempt ext entry ''created'' = Some d \<longrightarrow>
      snd (snd (snd (fst (parse_entry ext st entry)))) = d)
   \<and> (attempt ext entry ''published'' = None \<and> attempt ext entry ''updated'' = None
        \<and> attempt ext entry ''created'' = None \<longrightarrow>
      snd (snd (snd (fst (parse_entry ext st entry)))) = datetime_now ext (clock_reads st)
      \<and> clock_reads (snd (parse_entry ext st entry)) = Suc (clock_reads st))
   \<and> (entry_get entry key = Some s \<and> s \<noteq> [] \<longrightarrow>
      attempt ext entry key = dtparse_parse ext s)
   \<and> (entry_get entry key = None \<or> entry_get entry key = Some [] \<longrightarrow>
      attempt ext entry key =
        (case entry_get_parsed entry (key @ ''_parsed'') of
           None \<Rightarrow> None
         | Some t \<Rightarrow> dtparse_parse ext (str_struct_time t)))"
proof (intro conjI impI)
  assume "attempt ext entry ''published'' = Some d"
  then show "snd (snd (snd (fst (parse_entry ext st entry)))) = d"
    by (simp only: parse_entry_published published_loop_three option.case)
next
  assume "attempt ext entry ''published'' = None \<and> attempt ext entry ''updated'' = Some d"
  then show "snd (snd (snd (fst (parse_entry ext st entry)))) = d"
    by (simp only: parse_entry_published published_loop_three option.case)
next
  assume "attempt ext entry ''published'' = None \<and> attempt ext entry ''updated'' = None
        \<and> attempt ext entry ''created'' = Some d"
  then show "snd (snd (snd (fst (parse_entry ext st entry)))) = d"
    by (simp only: parse_entry_published published_loop_three option.case)
next
  assume a: "attempt ext entry ''published'' = None \<and> attempt ext entry ''updated'' = None
        \<and> attempt ext entry ''created'' = None"
  then show "snd (snd (snd (fst (parse_entry ext st entry)))) = datetime_now ext (clock_reads st)"
    by (simp only: parse_entry_published published_loop_three option.case)
  from a show "clock_reads (snd (parse_entry ext st entry)) = Suc (clock_reads st)"
    by (simp only: parse_entry_clock published_loop_three option.case)
next
  assume "entry_get entry key = Some s \<and> s \<noteq> []"
  then show "attempt ext entry key = dtparse_parse ext s"
    by (simp add: attempt_text)
next
  assume "entry_get entry key = None \<or> entry_get entry key = Some []"
  then show "attempt ext entry key =
        (case entry_get_parsed entry (key @ ''_parsed'') of
           None \<Rightarrow> None
         | Some t \<Rightarrow> dtparse_parse ext (str_struct_time t))"
    by (rule attempt_parsed)
qed

text \<open>An entry whose \<^verbatim>\<open>published\<close> text is not a date and whose \<^verbatim>\<open>updated\<close> text is one, and
  an entry without dates.\<close>

theorem published_resolution_witness:
  "snd (snd (snd (fst (parse_entry sample_ext init_state
      (entry_of [(''published'', ''soon''), (''updated'', ''2024-05-01'')])))))
     = DateTime ''2024-05-01T00:00:00''
   \<and> snd (snd (snd (fst (parse_entry sample_ext init_state (entry_of [(''title'', ''T'')])))))
     = datetime_now sample_ext 0
   \<and> clock_reads (snd (parse_entry sample_ext init_state (entry_of [(''title'', ''T'')]))) = 1"
  using published_resolution[of sample_ext
      "entry_of [(''published'', ''soon''), (''updated'', ''2024-05-01'')]"
      "DateTime ''2024-05-01T00:00:00''" init_state]
    published_resolution[of sample_ext "entry_of [(''title'', ''T'')]" _ init_state]
  by (simp add: sample_attempt init_state_def)

text \<open>
  C10. The fingerprint is the digest of the three parts joined without a separator: the
  distinct triples \<open>(ab, c, )\<close> and \<open>(a, bc, )\<close> have the same fingerprint, and so have any
  two triples with equal concatenation. After an entry that passed the discard test, an
  entry with another source name, title and link but the same concatenation adds no row.
\<close>

theorem hash_key_collision:
  "hash_key ext [Some ''ab'', Some ''c'', Some ''''] = hash_key ext [Some ''a'', Some ''bc'', Some '''']
   \<and> (''ab'', ''c'', '''') \<noteq> (''a'', ''bc'', '''')
   \<and> (or_str s [] @ or_str t [] @ or_str l [] = or_str s' [] @ or_str t' [] @ or_str l' [] \<longrightarrow>
        hash_key ext [s, t, l] = hash_key ext [s', t', l'])
   \<and> ((entry_title entry \<noteq> [] \<or> entry_link entry \<noteq> [])
        \<and> (entry_title entry' \<noteq> [] \<or> entry_link entry' \<noteq> [])
        \<and> src_source src @ entry_title entry @ entry_link entry
            = src_source src' @ entry_title entry' @ entry_link entry' \<longrightarrow>
        rows (process_entry ext src' (process_entry ext src st entry) entry')
          = rows (process_entry ext src st entry))"
proof (intro conjI impI)
  show "hash_key ext [Some ''ab'', Some ''c'', Some ''''] = hash_key ext [Some ''a'', Some ''bc'', Some '''']"
    by (simp add: hash_key_concat)
  show "(''ab'', ''c'', '''') \<noteq> (''a'', ''bc'', '''')" by simp
next
  assume "or_str s [] @ or_str t [] @ or_str l [] = or_str s' [] @ or_str t' [] @ or_str l' []"
  then show "hash_key ext [s, t, l] = hash_key ext [s', t', l']"
    by (simp add: hash_key_concat)
next
  assume h: "(entry_title entry \<noteq> [] \<or> entry_link entry \<noteq> [])
        \<and> (entry_title entry' \<noteq> [] \<or> entry_link entry' \<noteq> [])
        \<and> src_source src @ entry_title entry @ entry_link entry
            = src_source src' @ entry_title entry' @ entry_link entry'"
  then have k: "entry_key ext src' entry' = entry_key ext src entry"
    by (simp only: entry_key_concat)
  from h have "entry_key ext src entry \<in> seen (process_entry ext src st entry)"
    by (simp add: process_entry_seen_after)
  with k have "entry_key ext src' entry' \<in> seen (process_entry ext src st entry)" by simp
  with h show "rows (process_entry ext src' (process_entry ext src st entry) entry')
          = rows (process_entry ext src st entry)"
    by (simp add: process_entry_seen_rows(1))
qed

text \<open>The title \<open>bc\<close> of source \<open>a\<close> is dropped after the title \<open>c\<close> of source \<open>ab\<close>.\<close>

theorem hash_key_collision_witness:
  "src_source (source_named ''ab'') @ entry_title (entry_of [(''title'', ''c'')]) @ entry_link (entry_of [(''title'', ''c'')])
     = src_source (source_named ''a'') @ entry_title (entry_of [(''title'', ''bc'')]) @ entry_link (entry_of [(''title'', ''bc'')])
   \<and> map row_source (rows (process_entry sample_ext (source_named ''a'')
        (process_entry sample_ext (source_named ''ab'') init_state (entry_of [(''title'', ''c'')]))
        (entry_of [(''title'', ''bc'')]))) = [''ab'']
   \<and> map row_title (rows (process_entry sample_ext (source_named ''a'')
        (process_entry sample_ext (source_named ''ab'') init_state (entry_of [(''title'', ''c'')]))
        (entry_of [(''title'', ''bc'')]))) = [''c'']"
proof -
  have t: "strip ''c'' = ''c''" "strip ''bc'' = ''bc''"
    by (simp_all add: strip_def is_space_def)
  have r: "map row_source (rows (process_entry sample_ext (source_named ''ab'') init_state (entry_of [(''title'', ''c'')]))) = [''ab'']"
    "map row_title (rows (process_entry sample_ext (source_named ''ab'') init_state (entry_of [(''title'', ''c'')]))) = [''c'']"
    by code_simp+
  show ?thesis
    using hash_key_collision[of sample_ext _ _ _ _ _ _ "entry_of [(''title'', ''c'')]"
        "entry_of [(''title'', ''bc'')]" "source_named ''ab''" "source_named ''a''" init_state]
    by (simp add: sample_title t r source_named_source)
qed

text \<open>
  C3, as amended. The mirrors are tried when the handle is set and not empty and the
  source's address contains \<^verbatim>\<open>nitter\<close>. Then \<^const>\<open>fetch_feed\<close> requests
  \<^verbatim>\<open>{base}/{handle}/rss\<close> from the mirrors in order, up to and including the first one that
  answers with status 200 and a text that is not blank, and returns that text; when no
  mirror answers so, every mirror was requested and nothing is returned. In every other
  case only the source's own address is requested.
\<close>

theorem mirror_fallback:
  "(or_str handle [] \<noteq> [] \<and> contains ''nitter'' url \<longrightarrow>
      (i < length (NITTER_MIRRORS cfg)
       \<and> (\<forall>j<i. \<not> accepted (requests_get ext (length (requests st) + j)
                       (mirror_url (or_str handle []) (NITTER_MIRRORS cfg ! j))))
       \<and> accepted (requests_get ext (length (requests st) + i)
                       (mirror_url (or_str handle []) (NITTER_MIRRORS cfg ! i))) \<longrightarrow>
         fst (fetch_feed ext cfg st url handle)
           = Some (body (requests_get ext (length (requests st) + i)
                       (mirror_url (or_str handle []) (NITTER_MIRRORS cfg ! i))))
         \<and> requests (snd (fetch_feed ext cfg st url handle))
           = requests st @ map (mirror_url (or_str handle [])) (take (Suc i) (NITTER_MIRRORS cfg)))
      \<and> ((\<forall>j<length (NITTER_MIRRORS cfg).
              \<not> accepted (requests_get ext (length (requests st) + j)
                       (mirror_url (or_str handle []) (NITTER_MIRRORS cfg ! j)))) \<longrightarrow>
         fst (fetch_feed ext cfg st url handle) = None
         \<and> requests (snd (fetch_feed ext cfg st url handle))
           = requests st @ map (mirror_url (or_str handle [])) (NITTER_MIRRORS cfg)))
   \<and> (\<not> (or_str handle [] \<noteq> [] \<and> contains ''nitter'' url) \<longrightarrow>
        requests (snd (fetch_feed ext cfg st url handle)) = requests st @ [url])"
proof (intro conjI impI)
  assume g: "or_str handle [] \<noteq> [] \<and> contains ''nitter'' url"
  then have f: "fetch_feed ext cfg st url handle
                  = try_mirrors ext (or_str handle []) st (NITTER_MIRRORS cfg)"
    by (simp add: fetch_feed_def)
  {
    assume h: "i < length (NITTER_MIRRORS cfg)
       \<and> (\<forall>j<i. \<not> accepted (requests_get ext (length (requests st) + j)
                       (mirror_url (or_str handle []) (NITTER_MIRRORS cfg ! j))))
       \<and> accepted (requests_get ext (length (requests st) + i)
                       (mirror_url (or_str handle []) (NITTER_MIRRORS cfg ! i)))"
    from h have h1: "i < length (NITTER_MIRRORS cfg)" by (rule conjunct1)
    from h have h2: "\<forall>j<i. \<not> accepted (requests_get ext (length (requests st) + j)
                       (mirror_url (or_str handle []) (NITTER_MIRRORS cfg ! j)))"
      by (rule conjunct1[OF conjunct2])
    from h have h3: "accepted (requests_get ext (length (requests st) + i)
                       (mirror_url (or_str handle []) (NITTER_MIRRORS cfg ! i)))"
      by (rule conjunct2[OF conjunct2])
    note r = try_mirrors_first[OF h1 h2 h3]
    from r show "fst (fetch_feed ext cfg st url handle)
           = Some (body (requests_get ext (length (requests st) + i)
                       (mirror_url (or_str handle []) (NITTER_MIRRORS cfg ! i))))"
      by (simp only: f)
    from r show "requests (snd (fetch_feed ext cfg st url handle))
           = requests st @ map (mirror_url (or_str handle [])) (take (Suc i) (NITTER_MIRRORS cfg))"
      by (simp only: f)
  }
  {
    assume h: "\<forall>j<length (NITTER_MIRRORS cfg).
              \<not> accepted (requests_get ext (length (requests st) + j)
                       (mirror_url (or_str handle []) (NITTER_MIRRORS cfg ! j)))"
    note r = try_mirrors_none[OF h]
    from r show "fst (fetch_feed ext cfg st url handle) = None" by (simp only: f)
    from r show "requests (snd (fetch_feed ext cfg st url handle))
           = requests st @ map (mirror_url (or_str handle [])) (NITTER_MIRRORS cfg)"
      by (simp only: f)
  }
next
  assume "\<not> (or_str handle [] \<noteq> [] \<and> contains ''nitter'' url)"
  then show "requests (snd (fetch_feed ext cfg st url handle)) = requests st @ [url]"
    by (rule fetch_feed_single(1))
qed

text \<open>A handle with a Nitter address: the first mirror answers with a blank text, the second
  with a feed.\<close>

theorem mirror_fallback_witness:
  "or_str (Some ''alice'') [] \<noteq> []
   \<and> contains ''nitter'' ''https://nitter.net/alice/rss''
   \<and> fst (fetch_feed sample_ext xcancel_config init_state ''https://nitter.net/alice/rss''
            (Some ''alice'')) = Some ''<rss/>''
   \<and> requests (snd (fetch_feed sample_ext xcancel_config init_state
            ''https://nitter.net/alice/rss'' (Some ''alice'')))
       = [''https://nitter.blank/alice/rss'', ''https://nitter.example/alice/rss'']"
proof -
  have c: "contains ''nitter'' ''https://nitter.net/alice/rss''" by simp
  have b: "\<not> accepted (Response 200 '' '')" "accepted (Response 200 ''<rss/>'')"
    by (simp_all add: accepted_def strip_def is_space_def)
  show ?thesis
    using mirror_fallback[of "Some ''alice''" "''https://nitter.net/alice/rss''" 1 xcancel_config
        sample_ext init_state]
    by (simp add: c b xcancel_mirrors sample_responses mirror_url_def init_state_def)
qed

text \<open>
  The claim as stated fails for a source with a handle whose address does not contain
  \<^verbatim>\<open>nitter\<close>: with the primary base \<^verbatim>\<open>https://xcancel.com\<close> no mirror is requested, although
  the second mirror would answer. It also fails for a mirror that answers 200 with a blank
  text, which is not empty and still passed over.
\<close>

theorem mirror_fallback_counterexample:
  "feed_sources xcancel_config
     = Inr [\<lparr>src_source = ''Twitter:alice'', src_category = ''twitter'',
             src_url = ''https://xcancel.com/alice/rss'', src_handle = Some ''alice''\<rparr>]
   \<and> NITTER_MIRRORS xcancel_config = [''https://nitter.blank'', ''https://nitter.example'']
   \<and> requests_get sample_ext 0 ''https://nitter.blank/alice/rss'' = Response 200 '' ''
   \<and> requests_get sample_ext 1 ''https://nitter.example/alice/rss'' = Response 200 ''<rss/>''
   \<and> fetch_feed sample_ext xcancel_config init_state ''https://xcancel.com/alice/rss''
        (Some ''alice'')
       = (None, init_state\<lparr>requests := [''https://xcancel.com/alice/rss''],
                           log_lines := [FetchFailed ''https://xcancel.com/alice/rss'' ''timeout'']\<rparr>)
   \<and> fst (fetch_feed sample_ext xcancel_config init_state ''https://nitter.net/alice/rss''
            (Some ''alice'')) = Some ''<rss/>''"
  by code_simp

end
